theory Spec2Isabelle
  imports Main
begin

section \<open>Rectangle\<close>

text \<open>
  \<^verbatim>\<open>function Rectangle(width, height)\<close> stores its two arguments and a closure
  \<^verbatim>\<open>() => width * height\<close> over them. The number type is kept abstract: any
  type with a multiplication stands for the numbers of the host.
\<close>

record 'n Rectangle_obj =
  width :: 'n
  height :: 'n
  getArea :: "unit \<Rightarrow> 'n"

definition Rectangle :: "'n::times \<Rightarrow> 'n \<Rightarrow> 'n Rectangle_obj" where
  "Rectangle w h = \<lparr>width = w, height = h, getArea = (\<lambda>_. w * h)\<rparr>"


section \<open>The simple selector\<close>

text \<open>
  The fields of \<^verbatim>\<open>MySelector\<close>, as its constructor initialises them: three
  strings, three arrays of strings and the number \<^verbatim>\<open>order\<close>.
\<close>

record MySelector =
  el :: string
  idValue :: string
  cls :: "string list"
  attrValue :: "string list"
  psdCls :: "string list"
  psdEl :: string
  order :: nat

definition new_MySelector :: MySelector where
  "new_MySelector =
     \<lparr>el = '''', idValue = '''', cls = [], attrValue = [], psdCls = [], psdEl = '''', order = 0\<rparr>"

text \<open>
  The two errors \<^verbatim>\<open>check\<close> throws. The source throws a plain \<^verbatim>\<open>Error\<close> with
  a message; the constructors carry the names the specification gives them:
  the first is the message "Element, id and pseudo-element should not occur more
  then one time inside the selector", the second the message "Selector parts should
  be arranged in the following order: ...".
\<close>

datatype error = DuplicateSingularPartError | OrderViolationError

text \<open>
  A method call on a selector yields an outcome (\<open>Inl\<close> the error thrown, \<open>Inr\<close> a
  normal return) together with the fields of the receiver as the call leaves them,
  also when it throws. The part-adding methods return \<^verbatim>\<open>this\<close>, so their normal
  return carries no value of its own.
\<close>

type_synonym 'a call_result = "(error + 'a) \<times> MySelector"

text \<open>The property keys \<^verbatim>\<open>check\<close> receives, and the values \<^verbatim>\<open>this[val]\<close> reads.\<close>

datatype key = Key_el | Key_idValue | Key_cls | Key_attrValue | Key_psdCls | Key_psdEl

datatype jsval = JString string | JArray "string list"

fun get_prop :: "MySelector \<Rightarrow> key \<Rightarrow> jsval" where
  "get_prop this Key_el = JString (el this)"
| "get_prop this Key_idValue = JString (idValue this)"
| "get_prop this Key_cls = JArray (cls this)"
| "get_prop this Key_attrValue = JArray (attrValue this)"
| "get_prop this Key_psdCls = JArray (psdCls this)"
| "get_prop this Key_psdEl = JString (psdEl this)"

fun typeof :: "jsval \<Rightarrow> string" where
  "typeof (JString s) = ''string''"
| "typeof (JArray xs) = ''object''"

fun js_length :: "jsval \<Rightarrow> nat" where
  "js_length (JString s) = length s"
| "js_length (JArray xs) = length xs"

text \<open>\<^verbatim>\<open>!value\<close>: the empty string is falsy, every array (also the empty one) is truthy.\<close>

fun falsy :: "jsval \<Rightarrow> bool" where
  "falsy (JString s) = (s = '''')"
| "falsy (JArray xs) = False"

text \<open>
  \<^verbatim>\<open>check(val, ord)\<close>: both throws come before the only assignment, so a throwing
  call hands back the receiver as it found it.
\<close>

definition check :: "key \<Rightarrow> nat \<Rightarrow> MySelector \<Rightarrow> unit call_result" where
  "check val ord this =
     (if typeof (get_prop this val) = ''string'' \<and> 0 < js_length (get_prop this val)
      then (Inl DuplicateSingularPartError, this)
      else if ord < order this
      then (Inl OrderViolationError, this)
      else (Inr (), this\<lparr>order := ord\<rparr>))"

definition element :: "string \<Rightarrow> MySelector \<Rightarrow> unit call_result" where
  "element v this =
     (case check Key_el 1 this of
        (Inl e, this1) \<Rightarrow> (Inl e, this1)
      | (Inr _, this1) \<Rightarrow> (Inr (), this1\<lparr>el := v\<rparr>))"

definition id_op :: "string \<Rightarrow> MySelector \<Rightarrow> unit call_result" where
  "id_op v this =
     (case check Key_idValue 2 this of
        (Inl e, this1) \<Rightarrow> (Inl e, this1)
      | (Inr _, this1) \<Rightarrow> (Inr (), this1\<lparr>idValue := v\<rparr>))"

definition class_op :: "string \<Rightarrow> MySelector \<Rightarrow> unit call_result" where
  "class_op v this =
     (case check Key_cls 3 this of
        (Inl e, this1) \<Rightarrow> (Inl e, this1)
      | (Inr _, this1) \<Rightarrow> (Inr (), this1\<lparr>cls := cls this1 @ [v]\<rparr>))"

definition attr :: "string \<Rightarrow> MySelector \<Rightarrow> unit call_result" where
  "attr v this =
     (case check Key_attrValue 4 this of
        (Inl e, this1) \<Rightarrow> (Inl e, this1)
      | (Inr _, this1) \<Rightarrow> (Inr (), this1\<lparr>attrValue := attrValue this1 @ [v]\<rparr>))"

definition pseudoClass :: "string \<Rightarrow> MySelector \<Rightarrow> unit call_result" where
  "pseudoClass v this =
     (case check Key_psdCls 5 this of
        (Inl e, this1) \<Rightarrow> (Inl e, this1)
      | (Inr _, this1) \<Rightarrow> (Inr (), this1\<lparr>psdCls := psdCls this1 @ [v]\<rparr>))"

definition pseudoElement :: "string \<Rightarrow> MySelector \<Rightarrow> unit call_result" where
  "pseudoElement v this =
     (case check Key_psdEl 6 this of
        (Inl e, this1) \<Rightarrow> (Inl e, this1)
      | (Inr _, this1) \<Rightarrow> (Inr (), this1\<lparr>psdEl := v\<rparr>))"

text \<open>
  \<^verbatim>\<open>transform(value, start, end)\<close>: a falsy value is replaced by the empty array; an
  array is mapped and joined with the empty separator, a string is wrapped.
\<close>

definition transform :: "jsval \<Rightarrow> string \<Rightarrow> string \<Rightarrow> string" where
  "transform v start fin =
     (let copy = (if falsy v then JArray [] else v) in
      case copy of
        JArray items \<Rightarrow> concat (map (\<lambda>item. start @ item @ fin) items)
      | JString s \<Rightarrow> start @ s @ fin)"

definition stringify :: "MySelector \<Rightarrow> string" where
  "stringify this =
     (let strEl = el this;
          res = strEl
            @ transform (get_prop this Key_idValue) ''#'' ''''
            @ transform (get_prop this Key_cls) ''.'' ''''
            @ transform (get_prop this Key_attrValue) ''['' '']''
            @ transform (get_prop this Key_psdCls) '':'' ''''
            @ transform (get_prop this Key_psdEl) ''::'' ''''
      in res)"


subsection \<open>Chains of calls\<close>

text \<open>The six part-adding calls as data, to speak about sequences of them.\<close>

datatype part =
    Element string
  | Id string
  | Class string
  | Attr string
  | PseudoClass string
  | PseudoElement string

fun apply_part :: "part \<Rightarrow> MySelector \<Rightarrow> unit call_result" where
  "apply_part (Element v) this = element v this"
| "apply_part (Id v) this = id_op v this"
| "apply_part (Class v) this = class_op v this"
| "apply_part (Attr v) this = attr v this"
| "apply_part (PseudoClass v) this = pseudoClass v this"
| "apply_part (PseudoElement v) this = pseudoElement v this"

text \<open>
  A fluent chain \<^verbatim>\<open>s.a(..).b(..)\<close>: each call is made on the object the previous one
  returned; the first throw ends the chain.
\<close>

fun chain :: "part list \<Rightarrow> MySelector \<Rightarrow> unit call_result" where
  "chain [] this = (Inr (), this)"
| "chain (p # ps) this =
     (case apply_part p this of
        (Inl e, this1) \<Rightarrow> (Inl e, this1)
      | (Inr _, this1) \<Rightarrow> chain ps this1)"



section \<open>The combined selector and the facade\<close>

text \<open>
  A selector node is a simple selector or a \<^verbatim>\<open>MyCombinedSelector\<close> with its three
  fields \<^verbatim>\<open>s1\<close>, \<^verbatim>\<open>c\<close>, \<^verbatim>\<open>s2\<close>.
\<close>

datatype node =
    Simple MySelector
  | MyCombinedSelector node string node

fun stringify_node :: "node \<Rightarrow> string" where
  "stringify_node (Simple s) = stringify s"
| "stringify_node (MyCombinedSelector s1 c s2) =
     stringify_node s1 @ '' '' @ c @ '' '' @ stringify_node s2"

text \<open>
  The entry points of \<^verbatim>\<open>cssSelectorBuilder\<close>: \<open>builder (Element v)\<close> is
  \<^verbatim>\<open>cssSelectorBuilder.element(v)\<close>, and so on for the six methods; each makes a new
  selector and calls the method of the same name on it.
\<close>

fun builder :: "part \<Rightarrow> unit call_result" where
  "builder (Element v) = element v new_MySelector"
| "builder (Id v) = id_op v new_MySelector"
| "builder (Class v) = class_op v new_MySelector"
| "builder (Attr v) = attr v new_MySelector"
| "builder (PseudoClass v) = pseudoClass v new_MySelector"
| "builder (PseudoElement v) = pseudoElement v new_MySelector"

definition combine :: "node \<Rightarrow> string \<Rightarrow> node \<Rightarrow> node" where
  "combine selector1 combinator selector2 = MyCombinedSelector selector1 combinator selector2"


section \<open>JSON helpers\<close>










section \<open>Selectors in a store\<close>

text \<open>
  To speak about several selector objects at once, objects live in a store. A
  selector object holds its three strings and its number, and references to its three
  arrays; arrays and selector objects have their own address spaces, and an allocation
  takes the next free address.
\<close>

type_synonym ref = nat

record MySelector_cell =
  el_c :: string
  idValue_c :: string
  cls_c :: ref
  attrValue_c :: ref
  psdCls_c :: ref
  psdEl_c :: string
  order_c :: nat

record store =
  arrays :: "ref \<Rightarrow> string list"
  selectors :: "ref \<Rightarrow> MySelector_cell"
  next_array :: ref
  next_selector :: ref

text \<open>The array literal \<^verbatim>\<open>[]\<close>: a new empty array.\<close>

definition new_array :: "store \<Rightarrow> ref \<times> store" where
  "new_array h =
     (next_array h, h\<lparr>arrays := (arrays h)(next_array h := []), next_array := Suc (next_array h)\<rparr>)"

text \<open>
  \<^verbatim>\<open>new MySelector()\<close>: the constructor evaluates three array literals and fills the
  seven fields of a new object.
\<close>

definition st_new_MySelector :: "store \<Rightarrow> ref \<times> store" where
  "st_new_MySelector h =
     (let (a1, h1) = new_array h;
          (a2, h2) = new_array h1;
          (a3, h3) = new_array h2;
          this = next_selector h3
      in (this,
          h3\<lparr>selectors := (selectors h3)(this :=
                \<lparr>el_c = '''', idValue_c = '''', cls_c = a1, attrValue_c = a2, psdCls_c = a3,
                 psdEl_c = '''', order_c = 0\<rparr>),
             next_selector := Suc this\<rparr>))"

text \<open>\<^verbatim>\<open>this[val]\<close> in the store: a string, or the reference of an array.\<close>

datatype jsref = RString string | RArray ref

fun st_prop :: "MySelector_cell \<Rightarrow> key \<Rightarrow> jsref" where
  "st_prop obj Key_el = RString (el_c obj)"
| "st_prop obj Key_idValue = RString (idValue_c obj)"
| "st_prop obj Key_cls = RArray (cls_c obj)"
| "st_prop obj Key_attrValue = RArray (attrValue_c obj)"
| "st_prop obj Key_psdCls = RArray (psdCls_c obj)"
| "st_prop obj Key_psdEl = RString (psdEl_c obj)"

fun st_typeof :: "jsref \<Rightarrow> string" where
  "st_typeof (RString s) = ''string''"
| "st_typeof (RArray r) = ''object''"

fun st_length :: "store \<Rightarrow> jsref \<Rightarrow> nat" where
  "st_length h (RString s) = length s"
| "st_length h (RArray r) = length (arrays h r)"

fun st_falsy :: "jsref \<Rightarrow> bool" where
  "st_falsy (RString s) = (s = '''')"
| "st_falsy (RArray r) = False"

type_synonym 'a st_result = "(error + 'a) \<times> store"

definition st_check :: "key \<Rightarrow> nat \<Rightarrow> ref \<Rightarrow> store \<Rightarrow> unit st_result" where
  "st_check k ord this h =
     (if st_typeof (st_prop (selectors h this) k) = ''string'' \<and>
         0 < st_length h (st_prop (selectors h this) k)
      then (Inl DuplicateSingularPartError, h)
      else if ord < order_c (selectors h this)
      then (Inl OrderViolationError, h)
      else (Inr (), h\<lparr>selectors := (selectors h)(this := (selectors h this)\<lparr>order_c := ord\<rparr>)\<rparr>))"

text \<open>An assignment to a string field of \<open>this\<close>, and \<^verbatim>\<open>push\<close> on an array.\<close>

definition set_field :: "(MySelector_cell \<Rightarrow> MySelector_cell) \<Rightarrow> ref \<Rightarrow> store \<Rightarrow> store" where
  "set_field upd this h = h\<lparr>selectors := (selectors h)(this := upd (selectors h this))\<rparr>"

definition push :: "ref \<Rightarrow> string \<Rightarrow> store \<Rightarrow> store" where
  "push r v h = h\<lparr>arrays := (arrays h)(r := arrays h r @ [v])\<rparr>"

definition st_element :: "string \<Rightarrow> ref \<Rightarrow> store \<Rightarrow> unit st_result" where
  "st_element v this h =
     (case st_check Key_el 1 this h of
        (Inl e, h1) \<Rightarrow> (Inl e, h1)
      | (Inr _, h1) \<Rightarrow> (Inr (), set_field (\<lambda>obj. obj\<lparr>el_c := v\<rparr>) this h1))"

definition st_id :: "string \<Rightarrow> ref \<Rightarrow> store \<Rightarrow> unit st_result" where
  "st_id v this h =
     (case st_check Key_idValue 2 this h of
        (Inl e, h1) \<Rightarrow> (Inl e, h1)
      | (Inr _, h1) \<Rightarrow> (Inr (), set_field (\<lambda>obj. obj\<lparr>idValue_c := v\<rparr>) this h1))"

definition st_class :: "string \<Rightarrow> ref \<Rightarrow> store \<Rightarrow> unit st_result" where
  "st_class v this h =
     (case st_check Key_cls 3 this h of
        (Inl e, h1) \<Rightarrow> (Inl e, h1)
      | (Inr _, h1) \<Rightarrow> (Inr (), push (cls_c (selectors h1 this)) v h1))"

definition st_attr :: "string \<Rightarrow> ref \<Rightarrow> store \<Rightarrow> unit st_result" where
  "st_attr v this h =
     (case st_check Key_attrValue 4 this h of
        (Inl e, h1) \<Rightarrow> (Inl e, h1)
      | (Inr _, h1) \<Rightarrow> (Inr (), push (attrValue_c (selectors h1 this)) v h1))"

definition st_pseudoClass :: "string \<Rightarrow> ref \<Rightarrow> store \<Rightarrow> unit st_result" where
  "st_pseudoClass v this h =
     (case st_check Key_psdCls 5 this h of
        (Inl e, h1) \<Rightarrow> (Inl e, h1)
      | (Inr _, h1) \<Rightarrow> (Inr (), push (psdCls_c (selectors h1 this)) v h1))"

definition st_pseudoElement :: "string \<Rightarrow> ref \<Rightarrow> store \<Rightarrow> unit st_result" where
  "st_pseudoElement v this h =
     (case st_check Key_psdEl 6 this h of
        (Inl e, h1) \<Rightarrow> (Inl e, h1)
      | (Inr _, h1) \<Rightarrow> (Inr (), set_field (\<lambda>obj. obj\<lparr>psdEl_c := v\<rparr>) this h1))"

fun st_apply_part :: "part \<Rightarrow> ref \<Rightarrow> store \<Rightarrow> unit st_result" where
  "st_apply_part (Element v) this h = st_element v this h"
| "st_apply_part (Id v) this h = st_id v this h"
| "st_apply_part (Class v) this h = st_class v this h"
| "st_apply_part (Attr v) this h = st_attr v this h"
| "st_apply_part (PseudoClass v) this h = st_pseudoClass v this h"
| "st_apply_part (PseudoElement v) this h = st_pseudoElement v this h"

text \<open>
  The fields of the selector at an address, with its arrays read out of the store:
  the state of that selector as the part-adding methods and \<^verbatim>\<open>stringify\<close> see it.
\<close>

definition view :: "store \<Rightarrow> ref \<Rightarrow> MySelector" where
  "view h this =
     (let obj = selectors h this in
      \<lparr>el = el_c obj, idValue = idValue_c obj, cls = arrays h (cls_c obj),
       attrValue = arrays h (attrValue_c obj), psdCls = arrays h (psdCls_c obj),
       psdEl = psdEl_c obj, order = order_c obj\<rparr>)"

text \<open>
  \<^verbatim>\<open>copy.map(f)\<close> makes a new array and leaves \<open>copy\<close> alone; \<^verbatim>\<open>join('')\<close> reads an
  array and returns a string.
\<close>

definition array_map :: "(string \<Rightarrow> string) \<Rightarrow> ref \<Rightarrow> store \<Rightarrow> ref \<times> store" where
  "array_map f r h =
     (next_array h,
      h\<lparr>arrays := (arrays h)(next_array h := map f (arrays h r)),
        next_array := Suc (next_array h)\<rparr>)"

definition array_join :: "ref \<Rightarrow> store \<Rightarrow> string" where
  "array_join r h = concat (arrays h r)"

text \<open>
  \<^verbatim>\<open>transform\<close> in the store: the array literal and \<^verbatim>\<open>map\<close> allocate, nothing that
  exists is written.
\<close>

definition st_transform :: "jsref \<Rightarrow> string \<Rightarrow> string \<Rightarrow> store \<Rightarrow> string \<times> store" where
  "st_transform v start fin h =
     (let (copy, h1) = (if st_falsy v
                        then (let (r, h0) = new_array h in (RArray r, h0))
                        else (v, h))
      in case copy of
           RArray r \<Rightarrow>
             (let (m, h2) = array_map (\<lambda>item. start @ item @ fin) r h1
              in (array_join m h2, h2))
         | RString s \<Rightarrow> (start @ s @ fin, h1))"

text \<open>
  \<^verbatim>\<open>stringify\<close> in the store: the template literal reads the fields of \<open>this\<close> and
  calls \<^verbatim>\<open>transform\<close> from left to right.
\<close>

definition st_stringify :: "ref \<Rightarrow> store \<Rightarrow> string \<times> store" where
  "st_stringify this h =
     (let strEl = el_c (selectors h this);
          (t1, h1) = st_transform (st_prop (selectors h this) Key_idValue) ''#'' '''' h;
          (t2, h2) = st_transform (st_prop (selectors h1 this) Key_cls) ''.'' '''' h1;
          (t3, h3) = st_transform (st_prop (selectors h2 this) Key_attrValue) ''['' '']'' h2;
          (t4, h4) = st_transform (st_prop (selectors h3 this) Key_psdCls) '':'' '''' h3;
          (t5, h5) = st_transform (st_prop (selectors h4 this) Key_psdEl) ''::'' '''' h4;
          res = strEl @ t1 @ t2 @ t3 @ t4 @ t5
      in (res, h5))"

text \<open>
  A \<^verbatim>\<open>MyCombinedSelector\<close> is never assigned to after its construction, so a node in
  the store is the tree of the combined selectors down to the references of the simple
  selectors, which can still change.
\<close>

datatype st_node =
    StSimple ref
  | StCombined st_node string st_node

fun st_stringify_node :: "st_node \<Rightarrow> store \<Rightarrow> string \<times> store" where
  "st_stringify_node (StSimple a) h = st_stringify a h"
| "st_stringify_node (StCombined s1 c s2) h =
     (let (l, h1) = st_stringify_node s1 h;
          (r, h2) = st_stringify_node s2 h1
      in (l @ '' '' @ c @ '' '' @ r, h2))"

text \<open>The node read out of the store, and the references of the selectors in it.\<close>

fun node_view :: "store \<Rightarrow> st_node \<Rightarrow> node" where
  "node_view h (StSimple a) = Simple (view h a)"
| "node_view h (StCombined s1 c s2) = MyCombinedSelector (node_view h s1) c (node_view h s2)"

fun node_refs :: "st_node \<Rightarrow> ref list" where
  "node_refs (StSimple a) = [a]"
| "node_refs (StCombined s1 c s2) = node_refs s1 @ node_refs s2"

text \<open>
  \<open>k\<close> calls of \<^verbatim>\<open>stringify\<close> in a row on the same node: the strings returned, and
  the store afterwards.
\<close>

fun st_stringify_times :: "nat \<Rightarrow> st_node \<Rightarrow> store \<Rightarrow> string list \<times> store" where
  "st_stringify_times 0 n h = ([], h)"
| "st_stringify_times (Suc k) n h =
     (let (s, h1) = st_stringify_node n h;
          (ss, h2) = st_stringify_times k n h1
      in (s # ss, h2))"

text \<open>
  The entry methods of the facade in the store: \<^verbatim>\<open>new MySelector().m(value)\<close>. The
  facade object has no field of its own; a call reads and writes the store only through
  the new object. The result is the reference the method returns.
\<close>

definition st_builder :: "part \<Rightarrow> store \<Rightarrow> ref st_result" where
  "st_builder p h =
     (let (this, h1) = st_new_MySelector h in
      case st_apply_part p this h1 of
        (Inl e, h2) \<Rightarrow> (Inl e, h2)
      | (Inr _, h2) \<Rightarrow> (Inr this, h2))"

text \<open>
  The store is well formed when every allocated selector holds three different
  allocated arrays, and no array belongs to two selectors.
\<close>

definition owned :: "store \<Rightarrow> ref \<Rightarrow> ref set" where
  "owned h a = {cls_c (selectors h a), attrValue_c (selectors h a), psdCls_c (selectors h a)}"

definition wf_store :: "store \<Rightarrow> bool" where
  "wf_store h \<longleftrightarrow>
     (\<forall>a < next_selector h.
        cls_c (selectors h a) < next_array h \<and>
        attrValue_c (selectors h a) < next_array h \<and>
        psdCls_c (selectors h a) < next_array h \<and>
        cls_c (selectors h a) \<noteq> attrValue_c (selectors h a) \<and>
        cls_c (selectors h a) \<noteq> psdCls_c (selectors h a) \<and>
        attrValue_c (selectors h a) \<noteq> psdCls_c (selectors h a) \<and>
        (\<forall>b < next_selector h. a \<noteq> b \<longrightarrow> owned h a \<inter> owned h b = {}))"

definition empty_store :: store where
  "empty_store =
     \<lparr>arrays = (\<lambda>_. []),
      selectors = (\<lambda>_. \<lparr>el_c = '''', idValue_c = '''', cls_c = 0, attrValue_c = 0, psdCls_c = 0,
                        psdEl_c = '''', order_c = 0\<rparr>),
      next_array = 0, next_selector = 0\<rparr>"




text \<open>
  One store extends another when it has the same selector objects and the same
  contents in every array that was allocated, and possibly more arrays.
\<close>

definition extends :: "store \<Rightarrow> store \<Rightarrow> bool" where
  "extends h h' \<longleftrightarrow>
     selectors h' = selectors h \<and> next_selector h' = next_selector h \<and>
     next_array h \<le> next_array h' \<and> (\<forall>r < next_array h. arrays h' r = arrays h r)"

text \<open>The value a reference stands for in a store.\<close>

fun deref :: "store \<Rightarrow> jsref \<Rightarrow> jsval" where
  "deref h (RString s) = JString s"
| "deref h (RArray r) = JArray (arrays h r)"


section \<open>The statements of the specification\<close>

text \<open>
  The rank of each category, as the specification tabulates it, and the value a call
  carries.
\<close>

fun rank :: "part \<Rightarrow> nat" where
  "rank (Element v) = 1"
| "rank (Id v) = 2"
| "rank (Class v) = 3"
| "rank (Attr v) = 4"
| "rank (PseudoClass v) = 5"
| "rank (PseudoElement v) = 6"

fun val :: "part \<Rightarrow> string" where
  "val (Element v) = v"
| "val (Id v) = v"
| "val (Class v) = v"
| "val (Attr v) = v"
| "val (PseudoClass v) = v"
| "val (PseudoElement v) = v"

definition category :: "nat \<Rightarrow> part list \<Rightarrow> part list" where
  "category k ps = filter (\<lambda>p. rank p = k) ps"

text \<open>
  A valid sequence of part-adding operations: the ranks never decrease, and each of
  the singular categories (element, id, pseudo-element) is used at most once.
\<close>

definition valid_sequence :: "part list \<Rightarrow> bool" where
  "valid_sequence ps \<longleftrightarrow>
     sorted (map rank ps) \<and>
     length (category 1 ps) \<le> 1 \<and> length (category 2 ps) \<le> 1 \<and> length (category 6 ps) \<le> 1"

text \<open>
  Each part wrapped in its delimiter, as the specification words it: the element
  bare, the id after \<open>#\<close>, a class after \<open>.\<close>, an attribute in brackets, a pseudo-class
  after \<open>:\<close>, the pseudo-element after \<open>::\<close>.
\<close>

fun wrapped :: "part \<Rightarrow> string" where
  "wrapped (Element v) = v"
| "wrapped (Id v) = ''#'' @ v"
| "wrapped (Class v) = ''.'' @ v"
| "wrapped (Attr v) = ''['' @ v @ '']''"
| "wrapped (PseudoClass v) = '':'' @ v"
| "wrapped (PseudoElement v) = ''::'' @ v"

text \<open>
  The same, except that an id or a pseudo-element whose value is the empty string
  contributes nothing.
\<close>

fun rendered :: "part \<Rightarrow> string" where
  "rendered (Id v) = (if v = '''' then '''' else ''#'' @ v)"
| "rendered (PseudoElement v) = (if v = '''' then '''' else ''::'' @ v)"
| "rendered p = wrapped p"

text \<open>The concatenation of the parts in the fixed order of the six categories.\<close>

definition in_category_order :: "(part \<Rightarrow> string) \<Rightarrow> part list \<Rightarrow> string" where
  "in_category_order f ps =
     concat (map f (category 1 ps)) @ concat (map f (category 2 ps)) @
     concat (map f (category 3 ps)) @ concat (map f (category 4 ps)) @
     concat (map f (category 5 ps)) @ concat (map f (category 6 ps))"

text \<open>The fields a valid sequence of calls leaves in a new selector.\<close>

definition fields_after :: "part list \<Rightarrow> MySelector" where
  "fields_after ps =
     \<lparr>el = concat (map val (category 1 ps)),
      idValue = concat (map val (category 2 ps)),
      cls = map val (category 3 ps),
      attrValue = map val (category 4 ps),
      psdCls = map val (category 5 ps),
      psdEl = concat (map val (category 6 ps)),
      order = (if ps = [] then 0 else rank (last ps))\<rparr>"

text \<open>Whether the singular field a call would set already holds a non-empty string.\<close>

fun already_set :: "part \<Rightarrow> MySelector \<Rightarrow> bool" where
  "already_set (Element v) this = (el this \<noteq> '''')"
| "already_set (Id v) this = (idValue this \<noteq> '''')"
| "already_set (PseudoElement v) this = (psdEl this \<noteq> '''')"
| "already_set _ this = False"


section \<open>Properties\<close>

subsection \<open>Rectangle\<close>

text \<open>
  C7. For all numbers \<open>w\<close> and \<open>h\<close>, the object \<open>Rectangle w h\<close> has \<open>w\<close> in its
  field \<open>width\<close>, \<open>h\<close> in its field \<open>height\<close>, and its \<open>getArea\<close> returns \<open>w * h\<close>.
\<close>

theorem Rectangle_fields_area:
  "width (Rectangle w h) = w \<and> height (Rectangle w h) = h \<and> getArea (Rectangle w h) () = w * h"
  by (simp add: Rectangle_def)


subsection \<open>One part-adding call\<close>

lemmas part_defs = element_def id_op_def class_op_def attr_def pseudoClass_def
  pseudoElement_def check_def

text \<open>The three ways a call can end, by the two tests of \<^verbatim>\<open>check\<close> in their order.\<close>

lemma apply_part_duplicate:
  "already_set p s \<Longrightarrow> apply_part p s = (Inl DuplicateSingularPartError, s)"
  by (cases p) (auto simp: part_defs)

lemma apply_part_order:
  "\<not> already_set p s \<Longrightarrow> rank p < order s \<Longrightarrow> apply_part p s = (Inl OrderViolationError, s)"
  by (cases p) (auto simp: part_defs)

lemma apply_part_ok:
  "\<not> already_set p s \<Longrightarrow> \<not> rank p < order s \<Longrightarrow>
   fst (apply_part p s) = Inr () \<and> order (snd (apply_part p s)) = rank p"
  by (cases p) (auto simp: part_defs)

lemma builder_apply_part: "builder p = apply_part p new_MySelector"
  by (cases p) simp_all

lemma builder_ok: "fst (builder p) = Inr ()"
  by (cases p) (simp_all add: part_defs new_MySelector_def)

text \<open>
  C9. When one of the six part-adding calls throws (either error), the receiver is
  left exactly as it was: all six part fields and \<open>order\<close> keep their values.
\<close>

theorem failed_call_changes_nothing:
  "fst (apply_part p s) = Inl e \<Longrightarrow> snd (apply_part p s) = s"
  by (cases p) (auto simp: part_defs split: if_splits)

theorem failed_call_changes_nothing_witness:
  "fst (apply_part (Element ''y'') (snd (builder (Id ''x'')))) = Inl OrderViolationError \<and>
   snd (apply_part (Element ''y'') (snd (builder (Id ''x'')))) = snd (builder (Id ''x''))"
proof -
  have f: "fst (apply_part (Element ''y'') (snd (builder (Id ''x'')))) = Inl OrderViolationError"
    by (simp add: part_defs new_MySelector_def)
  from f failed_call_changes_nothing [OF f] show ?thesis ..
qed

text \<open>
  C3, amended. A part whose rank is strictly below \<open>order\<close> is refused: with
  OrderViolationError, unless it is an element or id whose field already holds a
  non-empty string, for then the duplicate test, which comes first, refuses the call with
  DuplicateSingularPartError. A class, attribute or pseudo-class whose rank equals
  \<open>order\<close> is accepted. Every accepted part sets \<open>order\<close> to its rank. And
  \<^verbatim>\<open>id('x').element('y')\<close> fails with OrderViolationError.
\<close>

theorem rank_order_check:
  "(rank p < order s \<longrightarrow>
      fst (apply_part p s) =
        Inl (if already_set p s then DuplicateSingularPartError else OrderViolationError)) \<and>
   (rank p = order s \<and> (rank p = 3 \<or> rank p = 4 \<or> rank p = 5) \<longrightarrow>
      fst (apply_part p s) = Inr ()) \<and>
   (fst (apply_part p s) = Inr () \<longrightarrow> order (snd (apply_part p s)) = rank p) \<and>
   fst (builder (Id ''x'')) = Inr () \<and>
   fst (chain [Element ''y''] (snd (builder (Id ''x'')))) = Inl OrderViolationError"
proof (intro conjI impI)
  assume "rank p < order s"
  then show "fst (apply_part p s) =
      Inl (if already_set p s then DuplicateSingularPartError else OrderViolationError)"
    by (simp add: apply_part_duplicate apply_part_order)
next
  assume a: "rank p = order s \<and> (rank p = 3 \<or> rank p = 4 \<or> rank p = 5)"
  then have "\<not> already_set p s" by (cases p) simp_all
  with a show "fst (apply_part p s) = Inr ()" by (simp add: apply_part_ok)
next
  assume ok: "fst (apply_part p s) = Inr ()"
  have 1: "\<not> already_set p s"
  proof
    assume "already_set p s"
    from apply_part_duplicate [OF this] ok show False by simp
  qed
  have 2: "\<not> rank p < order s"
  proof
    assume "rank p < order s"
    from apply_part_order [OF 1 this] ok show False by simp
  qed
  from 1 2 show "order (snd (apply_part p s)) = rank p" by (simp add: apply_part_ok)
next
  show "fst (builder (Id ''x'')) = Inr ()" by (rule builder_ok)
next
  show "fst (chain [Element ''y''] (snd (builder (Id ''x'')))) = Inl OrderViolationError"
    by (simp add: part_defs new_MySelector_def)
qed

theorem rank_order_check_witness:
  "rank (Attr ''t'') < order (snd (builder (PseudoClass ''x''))) \<and>
   fst (apply_part (Attr ''t'') (snd (builder (PseudoClass ''x'')))) = Inl OrderViolationError \<and>
   rank (Class ''k'') = order (snd (builder (Class ''j''))) \<and>
   fst (apply_part (Class ''k'') (snd (builder (Class ''j'')))) = Inr () \<and>
   order (snd (apply_part (Class ''k'') (snd (builder (Class ''j''))))) = 3"
proof -
  have lt: "rank (Attr ''t'') < order (snd (builder (PseudoClass ''x'')))"
    by (simp add: part_defs new_MySelector_def)
  have ns: "\<not> already_set (Attr ''t'') (snd (builder (PseudoClass ''x'')))"
    by simp
  have eq: "rank (Class ''k'') = order (snd (builder (Class ''j''))) \<and>
      (rank (Class ''k'') = 3 \<or> rank (Class ''k'') = 4 \<or> rank (Class ''k'') = 5)"
    by (simp add: part_defs new_MySelector_def)
  note a = rank_order_check [of "Attr ''t''" "snd (builder (PseudoClass ''x''))"]
  note c = rank_order_check [of "Class ''k''" "snd (builder (Class ''j''))"]
  from a [THEN conjunct1, THEN mp, OF lt] ns
  have 1: "fst (apply_part (Attr ''t'') (snd (builder (PseudoClass ''x'')))) =
      Inl OrderViolationError"
    by simp
  note 2 = c [THEN conjunct2, THEN conjunct1, THEN mp, OF eq]
  from c [THEN conjunct2, THEN conjunct2, THEN conjunct1, THEN mp, OF 2]
  have 3: "order (snd (apply_part (Class ''k'') (snd (builder (Class ''j''))))) = 3"
    by simp
  from lt 1 eq [THEN conjunct1] 2 3 show ?thesis by (intro conjI)
qed

text \<open>
  After \<^verbatim>\<open>element('a').id('b')\<close> the call \<^verbatim>\<open>element('c')\<close> has a rank below
  \<open>order\<close>, and the error is the duplicate one, not the order one.
\<close>

theorem rank_order_duplicate_counterexample:
  "fst (chain [Id ''b''] (snd (builder (Element ''a'')))) = Inr () \<and>
   rank (Element ''c'') < order (snd (chain [Id ''b''] (snd (builder (Element ''a''))))) \<and>
   fst (apply_part (Element ''c'') (snd (chain [Id ''b''] (snd (builder (Element ''a'')))))) =
     Inl DuplicateSingularPartError \<and>
   fst (apply_part (Element ''c'') (snd (chain [Id ''b''] (snd (builder (Element ''a'')))))) \<noteq>
     Inl OrderViolationError"
  by (simp add: part_defs new_MySelector_def)


subsection \<open>The singular parts over the lifetime of a selector\<close>










subsection \<open>What a valid sequence of calls builds\<close>

lemma chain_snoc:
  "chain (ps @ [p]) s =
     (case chain ps s of (Inl e, t) \<Rightarrow> (Inl e, t) | (Inr _, t) \<Rightarrow> apply_part p t)"
  by (induction ps arbitrary: s) (auto split: prod.splits sum.splits)

lemma category_snoc:
  "category k (ps @ [p]) = (if rank p = k then category k ps @ [p] else category k ps)"
  by (simp add: category_def)

lemma category_Nil: "category k [] = []"
  by (simp add: category_def)

lemma in_category: "q \<in> set (category k ps) \<Longrightarrow> rank q = k"
  by (simp add: category_def)

lemma category_subset: "q \<in> set (category k ps) \<Longrightarrow> q \<in> set ps"
  by (simp add: category_def)

lemma valid_sequence_snoc:
  assumes "valid_sequence (ps @ [p])"
  shows "valid_sequence ps"
    and "ps \<noteq> [] \<Longrightarrow> rank (last ps) \<le> rank p"
    and "rank p = 1 \<or> rank p = 2 \<or> rank p = 6 \<Longrightarrow> category (rank p) ps = []"
proof -
  from assms have s: "sorted (map rank ps @ [rank p])"
    and l: "length (category 1 (ps @ [p])) \<le> 1" "length (category 2 (ps @ [p])) \<le> 1"
       "length (category 6 (ps @ [p])) \<le> 1"
    by (simp_all add: valid_sequence_def)
  from s have sp: "sorted (map rank ps)" and le: "\<forall>q \<in> set ps. rank q \<le> rank p"
    by (auto simp: sorted_append)
  from l have "length (category 1 ps) \<le> 1" "length (category 2 ps) \<le> 1"
    "length (category 6 ps) \<le> 1"
    by (auto simp: category_snoc split: if_splits)
  with sp show "valid_sequence ps" by (simp add: valid_sequence_def)
  show "rank (last ps) \<le> rank p" if "ps \<noteq> []"
    using that le by simp
  show "category (rank p) ps = []" if "rank p = 1 \<or> rank p = 2 \<or> rank p = 6"
    using that l by (auto simp: category_snoc split: if_splits)
qed

text \<open>One more call of a valid sequence is accepted, and the fields follow.\<close>

lemma apply_part_fields_after:
  assumes "valid_sequence (ps @ [p])"
  shows "apply_part p (fields_after ps) = (Inr (), fields_after (ps @ [p]))"
proof -
  note v = valid_sequence_snoc [OF assms]
  show ?thesis
  proof (cases p)
    case (Element x)
    with v(3) have "category 1 ps = []" by simp
    with Element v(2) show ?thesis
      by (auto simp: part_defs fields_after_def category_snoc)
  next
    case (Id x)
    with v(3) have "category 2 ps = []" by simp
    with Id v(2) show ?thesis
      by (auto simp: part_defs fields_after_def category_snoc)
  next
    case (Class x)
    with v(2) show ?thesis
      by (auto simp: part_defs fields_after_def category_snoc)
  next
    case (Attr x)
    with v(2) show ?thesis
      by (auto simp: part_defs fields_after_def category_snoc)
  next
    case (PseudoClass x)
    with v(2) show ?thesis
      by (auto simp: part_defs fields_after_def category_snoc)
  next
    case (PseudoElement x)
    with v(3) have "category 6 ps = []" by simp
    with PseudoElement v(2) show ?thesis
      by (auto simp: part_defs fields_after_def category_snoc)
  qed
qed

lemma chain_fields_after:
  "valid_sequence ps \<Longrightarrow> chain ps new_MySelector = (Inr (), fields_after ps)"
proof (induction ps rule: rev_induct)
  case Nil
  show ?case by (simp add: fields_after_def new_MySelector_def category_Nil)
next
  case (snoc p ps)
  from snoc.prems have "valid_sequence ps" by (rule valid_sequence_snoc(1))
  then have "chain ps new_MySelector = (Inr (), fields_after ps)" by (rule snoc.IH)
  then show ?case
    by (simp add: chain_snoc apply_part_fields_after [OF snoc.prems])
qed

text \<open>The two branches of \<^verbatim>\<open>transform\<close>.\<close>

lemma transform_array:
  "transform (JArray xs) start fin = concat (map (\<lambda>item. start @ item @ fin) xs)"
  by (simp add: transform_def)

lemma transform_string:
  "transform (JString s) start fin = (if s = '''' then '''' else start @ s @ fin)"
  by (simp add: transform_def)

lemma rendered_element: "rank q = 1 \<Longrightarrow> rendered q = val q"
  by (cases q) simp_all

lemma rendered_id:
  "rank q = 2 \<Longrightarrow> rendered q = (if val q = '''' then '''' else ''#'' @ val q)"
  by (cases q) simp_all

lemma rendered_class: "rank q = 3 \<Longrightarrow> rendered q = ''.'' @ val q"
  by (cases q) simp_all

lemma rendered_attr: "rank q = 4 \<Longrightarrow> rendered q = ''['' @ val q @ '']''"
  by (cases q) simp_all

lemma rendered_pseudoClass: "rank q = 5 \<Longrightarrow> rendered q = '':'' @ val q"
  by (cases q) simp_all

lemma rendered_pseudoElement:
  "rank q = 6 \<Longrightarrow> rendered q = (if val q = '''' then '''' else ''::'' @ val q)"
  by (cases q) simp_all

lemma rendered_wrapped:
  "(rank q = 2 \<or> rank q = 6 \<longrightarrow> val q \<noteq> '''') \<Longrightarrow> rendered q = wrapped q"
  by (cases q) simp_all

lemma at_most_one: "length xs \<le> 1 \<Longrightarrow> xs = [] \<or> (\<exists>x. xs = [x])"
  by (cases xs) auto

lemma render_element_part:
  "concat (map val (category 1 ps)) = concat (map rendered (category 1 ps))"
  by (rule arg_cong [where f = concat], rule map_cong [OF refl])
     (simp add: in_category rendered_element)

lemma render_class_part:
  "transform (JArray (map val (category 3 ps))) ''.'' '''' = concat (map rendered (category 3 ps))"
  unfolding transform_array map_map
  by (rule arg_cong [where f = concat], rule map_cong [OF refl])
     (simp add: in_category rendered_class)

lemma render_attr_part:
  "transform (JArray (map val (category 4 ps))) ''['' '']'' = concat (map rendered (category 4 ps))"
  unfolding transform_array map_map
  by (rule arg_cong [where f = concat], rule map_cong [OF refl])
     (simp add: in_category rendered_attr)

lemma render_pseudoClass_part:
  "transform (JArray (map val (category 5 ps))) '':'' '''' = concat (map rendered (category 5 ps))"
  unfolding transform_array map_map
  by (rule arg_cong [where f = concat], rule map_cong [OF refl])
     (simp add: in_category rendered_pseudoClass)

lemma render_id_part:
  assumes "length (category 2 ps) \<le> 1"
  shows "transform (JString (concat (map val (category 2 ps)))) ''#'' '''' =
         concat (map rendered (category 2 ps))"
proof -
  from at_most_one [OF assms] show ?thesis
  proof
    assume "category 2 ps = []"
    then show ?thesis by (simp add: transform_string)
  next
    assume "\<exists>x. category 2 ps = [x]"
    then obtain x where x: "category 2 ps = [x]" ..
    then have "x \<in> set (category 2 ps)" by simp
    then have "rank x = 2" by (rule in_category)
    with x show ?thesis by (simp add: transform_string rendered_id)
  qed
qed

lemma render_pseudoElement_part:
  assumes "length (category 6 ps) \<le> 1"
  shows "transform (JString (concat (map val (category 6 ps)))) ''::'' '''' =
         concat (map rendered (category 6 ps))"
proof -
  from at_most_one [OF assms] show ?thesis
  proof
    assume "category 6 ps = []"
    then show ?thesis by (simp add: transform_string)
  next
    assume "\<exists>x. category 6 ps = [x]"
    then obtain x where x: "category 6 ps = [x]" ..
    then have "x \<in> set (category 6 ps)" by simp
    then have "rank x = 6" by (rule in_category)
    with x show ?thesis by (simp add: transform_string rendered_pseudoElement)
  qed
qed

lemma stringify_fields_after:
  assumes "valid_sequence ps"
  shows "stringify (fields_after ps) = in_category_order rendered ps"
proof -
  from assms have l: "length (category 2 ps) \<le> 1" "length (category 6 ps) \<le> 1"
    by (simp_all add: valid_sequence_def)
  have "stringify (fields_after ps) =
      concat (map val (category 1 ps))
      @ transform (JString (concat (map val (category 2 ps)))) ''#'' ''''
      @ transform (JArray (map val (category 3 ps))) ''.'' ''''
      @ transform (JArray (map val (category 4 ps))) ''['' '']''
      @ transform (JArray (map val (category 5 ps))) '':'' ''''
      @ transform (JString (concat (map val (category 6 ps)))) ''::'' ''''"
    by (simp add: stringify_def fields_after_def)
  also have "\<dots> = in_category_order rendered ps"
    unfolding in_category_order_def render_element_part render_class_part render_attr_part
      render_pseudoClass_part render_id_part [OF l(1)] render_pseudoElement_part [OF l(2)] ..
  finally show ?thesis .
qed

lemma in_category_order_cong:
  assumes "\<And>q. q \<in> set ps \<Longrightarrow> f q = g q"
  shows "in_category_order f ps = in_category_order g ps"
proof -
  have eq: "map f (category k ps) = map g (category k ps)" for k
    by (rule map_cong [OF refl]) (simp add: assms category_subset)
  show ?thesis unfolding in_category_order_def eq ..
qed

text \<open>
  C1, amended. For every valid sequence of part-adding calls on a new selector (ranks
  never decreasing, element, id and pseudo-element used at most once), every call
  succeeds and \<open>stringify\<close> returns the concatenation, in the order element, id,
  classes, attributes, pseudo-classes, pseudo-element, of the parts: the element bare,
  the id after \<open>#\<close>, each class after \<open>.\<close>, each attribute in brackets, each
  pseudo-class after \<open>:\<close>, the pseudo-element after \<open>::\<close>, values of one category in
  the order of the calls with no separator; except that an id or a pseudo-element
  whose value is the empty string contributes nothing, not even its delimiter. When no
  id and no pseudo-element has the empty string as its value, this is the concatenation
  of every part wrapped in its delimiter.
\<close>

theorem stringify_valid_sequence:
  assumes "valid_sequence ps"
  shows "fst (chain ps new_MySelector) = Inr () \<and>
         stringify (snd (chain ps new_MySelector)) = in_category_order rendered ps \<and>
         ((\<forall>q \<in> set ps. rank q = 2 \<or> rank q = 6 \<longrightarrow> val q \<noteq> '''') \<longrightarrow>
            stringify (snd (chain ps new_MySelector)) = in_category_order wrapped ps)"
proof -
  have "in_category_order rendered ps = in_category_order wrapped ps"
    if "\<forall>q \<in> set ps. rank q = 2 \<or> rank q = 6 \<longrightarrow> val q \<noteq> ''''"
    by (rule in_category_order_cong) (use that in \<open>simp add: rendered_wrapped\<close>)
  with chain_fields_after [OF assms] stringify_fields_after [OF assms] show ?thesis
    by simp
qed

theorem stringify_valid_sequence_witness:
  "valid_sequence [Element ''a'', Id ''m'', Class ''c'', Class '''', Attr ''href'',
     PseudoClass ''focus'', PseudoElement ''after''] \<and>
   fst (chain [Element ''a'', Id ''m'', Class ''c'', Class '''', Attr ''href'',
     PseudoClass ''focus'', PseudoElement ''after''] new_MySelector) = Inr () \<and>
   stringify (snd (chain [Element ''a'', Id ''m'', Class ''c'', Class '''', Attr ''href'',
     PseudoClass ''focus'', PseudoElement ''after''] new_MySelector)) =
     ''a#m.c.[href]:focus::after''"
proof -
  let ?ps = "[Element ''a'', Id ''m'', Class ''c'', Class '''', Attr ''href'',
     PseudoClass ''focus'', PseudoElement ''after'']"
  have v: "valid_sequence ?ps"
    by (simp add: valid_sequence_def category_def)
  have n: "\<forall>q \<in> set ?ps. rank q = 2 \<or> rank q = 6 \<longrightarrow> val q \<noteq> ''''"
    by simp
  have r: "in_category_order wrapped ?ps = ''a#m.c.[href]:focus::after''"
    by (simp add: in_category_order_def category_def)
  note t = stringify_valid_sequence [OF v]
  note 1 = t [THEN conjunct1]
  note 2 = t [THEN conjunct2, THEN conjunct2, THEN mp, OF n, unfolded r]
  from v 1 2 show ?thesis by (intro conjI)
qed

text \<open>
  The sequence of the single call \<^verbatim>\<open>id('')\<close> is valid and its id part is present, but
  \<open>stringify\<close> returns the empty string and not \<open>#\<close>.
\<close>

theorem stringify_empty_id_counterexample:
  "valid_sequence [Id ''''] \<and>
   fst (chain [Id ''''] new_MySelector) = Inr () \<and>
   stringify (snd (chain [Id ''''] new_MySelector)) = '''' \<and>
   in_category_order wrapped [Id ''''] = ''#'' \<and>
   stringify (snd (chain [Id ''''] new_MySelector)) \<noteq> in_category_order wrapped [Id '''']"
  by (simp add: valid_sequence_def category_def in_category_order_def part_defs
      new_MySelector_def stringify_def transform_def)


subsection \<open>Combined selectors\<close>

text \<open>
  C4. The \<open>stringify\<close> of a combined selector with children \<open>l\<close> and \<open>r\<close> and
  combinator \<open>c\<close> is the \<open>stringify\<close> of \<open>l\<close>, a space, \<open>c\<close>, a space and the
  \<open>stringify\<close> of \<open>r\<close>, at every depth of nesting; and
  \<^verbatim>\<open>combine(element('div').id('main'), '+', element('table').id('data'))\<close> gives
  \<^verbatim>\<open>div#main + table#data\<close>.
\<close>

theorem combined_stringify:
  "stringify_node (MyCombinedSelector l c r) =
     stringify_node l @ '' '' @ c @ '' '' @ stringify_node r \<and>
   stringify_node (combine (combine l c r) c' (combine l' c'' r')) =
     stringify_node l @ '' '' @ c @ '' '' @ stringify_node r @ '' '' @ c' @ '' '' @
     stringify_node l' @ '' '' @ c'' @ '' '' @ stringify_node r' \<and>
   fst (chain [Id ''main''] (snd (builder (Element ''div'')))) = Inr () \<and>
   fst (chain [Id ''data''] (snd (builder (Element ''table'')))) = Inr () \<and>
   stringify_node
     (combine (Simple (snd (chain [Id ''main''] (snd (builder (Element ''div''))))))
        ''+''
        (Simple (snd (chain [Id ''data''] (snd (builder (Element ''table''))))))) =
     ''div#main + table#data''"
  by (simp add: combine_def part_defs new_MySelector_def stringify_def transform_def)

text \<open>
  C10. \<open>combine\<close> has no test and no throw: for any two nodes and any string,
  also one that is no CSS combinator, it returns the combined node holding exactly
  the three arguments, and the \<open>stringify\<close> of that node has the token as it was given
  between two single spaces.
\<close>

theorem combine_any_token:
  "combine l c r = MyCombinedSelector l c r \<and>
   (combine l c r = combine l' c' r' \<longleftrightarrow> l = l' \<and> c = c' \<and> r = r') \<and>
   stringify_node (combine l c r) = stringify_node l @ '' '' @ c @ '' '' @ stringify_node r \<and>
   stringify_node (combine (Simple (snd (builder (Element ''a'')))) ''!!''
      (Simple (snd (builder (Class ''b''))))) = ''a !! .b''"
  by (simp add: combine_def part_defs new_MySelector_def stringify_def transform_def)


subsection \<open>JSON helpers\<close>






subsection \<open>Selectors in the store\<close>

lemmas st_part_defs = st_element_def st_id_def st_class_def st_attr_def st_pseudoClass_def
  st_pseudoElement_def st_check_def set_field_def push_def

lemma wf_storeD:
  assumes "wf_store h" "a < next_selector h"
  shows "cls_c (selectors h a) \<noteq> attrValue_c (selectors h a)"
    and "cls_c (selectors h a) \<noteq> psdCls_c (selectors h a)"
    and "attrValue_c (selectors h a) \<noteq> psdCls_c (selectors h a)"
    and "cls_c (selectors h a) < next_array h"
    and "attrValue_c (selectors h a) < next_array h"
    and "psdCls_c (selectors h a) < next_array h"
  using assms unfolding wf_store_def by blast+

lemma wf_store_disjoint:
  assumes "wf_store h" "a < next_selector h" "b < next_selector h" "a \<noteq> b"
  shows "owned h a \<inter> owned h b = {}"
  using assms unfolding wf_store_def by blast

lemma wf_empty_store: "wf_store empty_store"
  by (simp add: wf_store_def empty_store_def)

lemma st_apply_part_view:
  assumes "wf_store h" "a < next_selector h"
  shows "fst (st_apply_part p a h) = fst (apply_part p (view h a))"
    and "view (snd (st_apply_part p a h)) a = snd (apply_part p (view h a))"
  using wf_storeD(1-3) [OF assms]
  by (cases p; auto simp: st_part_defs part_defs view_def Let_def)+

lemma st_apply_part_frame:
  assumes "wf_store h" "a < next_selector h" "b < next_selector h" "a \<noteq> b"
  shows "view (snd (st_apply_part p a h)) b = view h b"
  using wf_store_disjoint [OF assms]
  by (cases p; auto simp: st_part_defs view_def owned_def Let_def)

lemma st_apply_part_next:
  "next_selector (snd (st_apply_part p a h)) = next_selector h"
  "next_array (snd (st_apply_part p a h)) = next_array h"
  by (cases p; auto simp: st_part_defs)+

lemma st_apply_part_refs:
  "cls_c (selectors (snd (st_apply_part p a h)) b) = cls_c (selectors h b)"
  "attrValue_c (selectors (snd (st_apply_part p a h)) b) = attrValue_c (selectors h b)"
  "psdCls_c (selectors (snd (st_apply_part p a h)) b) = psdCls_c (selectors h b)"
  by (cases p; auto simp: st_part_defs)+

lemma st_apply_part_wf:
  "wf_store h \<Longrightarrow> wf_store (snd (st_apply_part p a h))"
  unfolding wf_store_def owned_def st_apply_part_next st_apply_part_refs .

text \<open>Extensions of a store.\<close>

lemma extends_refl: "extends h h"
  by (simp add: extends_def)

lemma extends_trans: "extends h h1 \<Longrightarrow> extends h1 h2 \<Longrightarrow> extends h h2"
  by (auto simp: extends_def)

lemma extends_view:
  assumes "wf_store h" "b < next_selector h" "extends h h'"
  shows "view h' b = view h b"
  using wf_storeD(4-6) [OF assms(1,2)] assms(3)
  by (simp add: view_def Let_def extends_def)

lemma extends_wf:
  assumes "wf_store h" "extends h h'"
  shows "wf_store h'"
  using assms unfolding wf_store_def owned_def extends_def
  by (auto simp: less_le_trans)

lemma new_array_extends: "extends h (snd (new_array h))"
  by (simp add: new_array_def extends_def)

lemma array_map_extends: "extends h (snd (array_map f r h))"
  by (simp add: array_map_def extends_def)

lemma st_transform_extends: "extends h (snd (st_transform v start fin h))"
  by (cases v)
     (auto simp: st_transform_def new_array_def array_map_def extends_def Let_def
        split: prod.splits jsref.splits)

lemma st_transform_fst:
  "fst (st_transform v start fin h) = transform (deref h v) start fin"
  by (cases v)
     (auto simp: st_transform_def transform_def new_array_def array_map_def array_join_def
        Let_def split: prod.splits jsref.splits)

lemma st_transform_selectors:
  "selectors (snd (st_transform v start fin h)) = selectors h"
  "next_selector (snd (st_transform v start fin h)) = next_selector h"
  using st_transform_extends [of h v start fin] by (simp_all add: extends_def)

lemma extends_arrays: "extends h h' \<Longrightarrow> r < next_array h \<Longrightarrow> arrays h' r = arrays h r"
  by (simp add: extends_def)

lemma st_stringify_unfold:
  "st_stringify a h =
     (let obj = selectors h a;
          h1 = snd (st_transform (RString (idValue_c obj)) ''#'' '''' h);
          h2 = snd (st_transform (RArray (cls_c obj)) ''.'' '''' h1);
          h3 = snd (st_transform (RArray (attrValue_c obj)) ''['' '']'' h2);
          h4 = snd (st_transform (RArray (psdCls_c obj)) '':'' '''' h3);
          h5 = snd (st_transform (RString (psdEl_c obj)) ''::'' '''' h4)
      in (el_c obj
          @ fst (st_transform (RString (idValue_c obj)) ''#'' '''' h)
          @ fst (st_transform (RArray (cls_c obj)) ''.'' '''' h1)
          @ fst (st_transform (RArray (attrValue_c obj)) ''['' '']'' h2)
          @ fst (st_transform (RArray (psdCls_c obj)) '':'' '''' h3)
          @ fst (st_transform (RString (psdEl_c obj)) ''::'' '''' h4), h5))"
  by (simp add: st_stringify_def Let_def case_prod_beta st_transform_selectors)

lemma st_transform_extends_trans:
  "extends h h' \<Longrightarrow> extends h (snd (st_transform v start fin h'))"
  by (rule extends_trans [OF _ st_transform_extends])

lemma st_stringify_extends: "extends h (snd (st_stringify a h))"
  unfolding st_stringify_unfold Let_def snd_conv
  by (intro st_transform_extends_trans extends_refl)

lemma st_transform_lt:
  "r < next_array h \<Longrightarrow> r < next_array (snd (st_transform v start fin h))"
  using st_transform_extends [of h v start fin] by (simp add: extends_def)

lemma st_transform_arrays:
  "r < next_array h \<Longrightarrow> arrays (snd (st_transform v start fin h)) r = arrays h r"
  using st_transform_extends [of h v start fin] by (simp add: extends_def)

lemma st_stringify_fst:
  assumes "wf_store h" "a < next_selector h"
  shows "fst (st_stringify a h) = stringify (view h a)"
  using wf_storeD(4-6) [OF assms]
  by (simp add: st_stringify_unfold Let_def st_transform_fst st_transform_lt
      st_transform_arrays stringify_def view_def)




text \<open>Combined nodes in the store.\<close>

lemma st_stringify_node_extends: "extends h (snd (st_stringify_node n h))"
proof (induction n arbitrary: h)
  case (StSimple a)
  show ?case by (simp add: st_stringify_extends)
next
  case (StCombined s1 c s2)
  from extends_trans [OF StCombined.IH(1) StCombined.IH(2)]
  show ?case by (simp add: case_prod_beta)
qed

lemma node_view_extends:
  assumes "wf_store h" "\<forall>a \<in> set (node_refs n). a < next_selector h" "extends h h'"
  shows "node_view h' n = node_view h n"
  using assms(2)
  by (induction n) (simp_all add: extends_view [OF assms(1) _ assms(3)])

lemma st_stringify_node_fst:
  assumes "wf_store h" "\<forall>a \<in> set (node_refs n). a < next_selector h"
  shows "fst (st_stringify_node n h) = stringify_node (node_view h n)"
  using assms
proof (induction n arbitrary: h)
  case (StSimple a)
  then show ?case by (simp add: st_stringify_fst)
next
  case (StCombined s1 c s2)
  let ?h1 = "snd (st_stringify_node s1 h)"
  have e: "extends h ?h1" by (rule st_stringify_node_extends)
  have w: "wf_store ?h1" by (rule extends_wf [OF StCombined.prems(1) e])
  from StCombined.prems(2) have r1: "\<forall>a \<in> set (node_refs s1). a < next_selector h"
    and r2: "\<forall>a \<in> set (node_refs s2). a < next_selector h"
    by simp_all
  from r2 e have r2': "\<forall>a \<in> set (node_refs s2). a < next_selector ?h1"
    by (simp add: extends_def)
  have "fst (st_stringify_node s2 ?h1) = stringify_node (node_view ?h1 s2)"
    by (rule StCombined.IH(2) [OF w r2'])
  also have "node_view ?h1 s2 = node_view h s2"
    by (rule node_view_extends [OF StCombined.prems(1) r2 e])
  finally show ?case
    by (simp add: case_prod_beta StCombined.IH(1) [OF StCombined.prems(1) r1])
qed

lemma st_stringify_times_extends: "extends h (snd (st_stringify_times k n h))"
proof (induction k arbitrary: h)
  case 0
  show ?case by (simp add: extends_refl)
next
  case (Suc k)
  from extends_trans [OF st_stringify_node_extends Suc.IH]
  show ?case by (simp add: case_prod_beta)
qed

lemma st_stringify_times_fst:
  assumes "wf_store h" "\<forall>a \<in> set (node_refs n). a < next_selector h"
  shows "fst (st_stringify_times k n h) = replicate k (fst (st_stringify_node n h))"
  using assms
proof (induction k arbitrary: h)
  case 0
  show ?case by simp
next
  case (Suc k)
  let ?h1 = "snd (st_stringify_node n h)"
  have e: "extends h ?h1" by (rule st_stringify_node_extends)
  have w: "wf_store ?h1" by (rule extends_wf [OF Suc.prems(1) e])
  from Suc.prems(2) e have r: "\<forall>a \<in> set (node_refs n). a < next_selector ?h1"
    by (simp add: extends_def)
  have "fst (st_stringify_node n ?h1) = stringify_node (node_view ?h1 n)"
    by (rule st_stringify_node_fst [OF w r])
  also have "\<dots> = stringify_node (node_view h n)"
    by (simp add: node_view_extends [OF Suc.prems e])
  also have "\<dots> = fst (st_stringify_node n h)"
    by (simp add: st_stringify_node_fst [OF Suc.prems])
  finally show ?case
    by (simp add: case_prod_beta Suc.IH [OF w r])
qed

text \<open>A part-adding call sees the fields of its receiver only.\<close>

lemma st_apply_part_extends:
  assumes "wf_store h" "a < next_selector h" "extends h h'"
  shows "fst (st_apply_part p a h') = fst (st_apply_part p a h)"
    and "view (snd (st_apply_part p a h')) a = view (snd (st_apply_part p a h)) a"
proof -
  have w: "wf_store h'" by (rule extends_wf [OF assms(1,3)])
  from assms(2,3) have a: "a < next_selector h'" by (simp add: extends_def)
  note v = extends_view [OF assms]
  show "fst (st_apply_part p a h') = fst (st_apply_part p a h)"
    by (simp add: st_apply_part_view(1) [OF w a] st_apply_part_view(1) [OF assms(1,2)] v)
  show "view (snd (st_apply_part p a h')) a = view (snd (st_apply_part p a h)) a"
    by (simp add: st_apply_part_view(2) [OF w a] st_apply_part_view(2) [OF assms(1,2)] v)
qed

text \<open>The constructor: three new arrays and a new object.\<close>

lemma st_new_MySelector_eq:
  "st_new_MySelector h =
     (next_selector h,
      h\<lparr>arrays := (arrays h)(next_array h := [], Suc (next_array h) := [],
                               Suc (Suc (next_array h)) := []),
         next_array := Suc (Suc (Suc (next_array h))),
         selectors := (selectors h)(next_selector h :=
           \<lparr>el_c = '''', idValue_c = '''', cls_c = next_array h,
            attrValue_c = Suc (next_array h), psdCls_c = Suc (Suc (next_array h)),
            psdEl_c = '''', order_c = 0\<rparr>),
         next_selector := Suc (next_selector h)\<rparr>)"
  by (simp add: st_new_MySelector_def new_array_def Let_def)

lemma st_new_MySelector_fresh:
  "fst (st_new_MySelector h) = next_selector h"
  "next_selector (snd (st_new_MySelector h)) = Suc (next_selector h)"
  "view (snd (st_new_MySelector h)) (next_selector h) = new_MySelector"
  by (simp_all add: st_new_MySelector_eq view_def new_MySelector_def Let_def)

lemma st_new_MySelector_frame:
  assumes "wf_store h" "b < next_selector h"
  shows "view (snd (st_new_MySelector h)) b = view h b"
  using wf_storeD(4-6) [OF assms] assms(2)
  by (simp add: st_new_MySelector_eq view_def Let_def)

lemma st_new_MySelector_wf:
  assumes "wf_store h"
  shows "wf_store (snd (st_new_MySelector h))"
  unfolding wf_store_def
proof (intro allI impI)
  fix a
  assume a: "a < next_selector (snd (st_new_MySelector h))"
  let ?h = "snd (st_new_MySelector h)"
  have old: "selectors ?h c = selectors h c" if "c < next_selector h" for c
    using that by (simp add: st_new_MySelector_eq)
  have new: "owned ?h (next_selector h) =
      {next_array h, Suc (next_array h), Suc (Suc (next_array h))}"
    by (simp add: st_new_MySelector_eq owned_def)
  have na: "next_array ?h = Suc (Suc (Suc (next_array h)))"
    by (simp add: st_new_MySelector_eq)
  have ns: "next_selector ?h = Suc (next_selector h)"
    by (simp add: st_new_MySelector_eq)
  have oldown: "owned ?h c = owned h c \<and> (\<forall>r \<in> owned h c. r < next_array h)"
    if "c < next_selector h" for c
    using that wf_storeD(4-6) [OF assms that] by (simp add: owned_def old)
  show "cls_c (selectors ?h a) < next_array ?h \<and>
        attrValue_c (selectors ?h a) < next_array ?h \<and>
        psdCls_c (selectors ?h a) < next_array ?h \<and>
        cls_c (selectors ?h a) \<noteq> attrValue_c (selectors ?h a) \<and>
        cls_c (selectors ?h a) \<noteq> psdCls_c (selectors ?h a) \<and>
        attrValue_c (selectors ?h a) \<noteq> psdCls_c (selectors ?h a) \<and>
        (\<forall>b<next_selector ?h. a \<noteq> b \<longrightarrow> owned ?h a \<inter> owned ?h b = {})"
  proof (cases "a < next_selector h")
    case True
    have disj: "owned ?h a \<inter> owned ?h b = {}" if "b < next_selector ?h" "a \<noteq> b" for b
    proof (cases "b < next_selector h")
      case bold: True
      with wf_store_disjoint [OF assms True bold that(2)] oldown [OF True] oldown [OF bold]
      show ?thesis by simp
    next
      case False
      with that ns have "b = next_selector h" by simp
      with oldown [OF True] new show ?thesis by auto
    qed
    from wf_storeD [OF assms True] disj show ?thesis
      by (simp add: old [OF True] na)
  next
    case False
    with a ns have eq: "a = next_selector h" by simp
    have disj: "owned ?h a \<inter> owned ?h b = {}" if "b < next_selector ?h" "a \<noteq> b" for b
    proof -
      from that eq ns have "b < next_selector h" by simp
      from oldown [OF this] new eq show ?thesis by auto
    qed
    from disj show ?thesis
      unfolding eq by (simp add: st_new_MySelector_eq)
  qed
qed

text \<open>An entry method of the facade.\<close>

lemma st_builder_unfold_aux:
  assumes "st_new_MySelector h = (this, h1)"
  shows "st_builder p h =
     (map_sum id (\<lambda>_. this) (fst (st_apply_part p this h1)), snd (st_apply_part p this h1))"
  using assms by (cases "st_apply_part p this h1") (auto simp: st_builder_def split: sum.splits)

lemma st_builder_unfold:
  "st_builder p h =
     (map_sum id (\<lambda>_. next_selector h)
        (fst (st_apply_part p (next_selector h) (snd (st_new_MySelector h)))),
      snd (st_apply_part p (next_selector h) (snd (st_new_MySelector h))))"
  by (rule st_builder_unfold_aux) (simp add: st_new_MySelector_fresh(1) [symmetric])

lemma st_builder_snd:
  "snd (st_builder p h) =
     snd (st_apply_part p (next_selector h) (snd (st_new_MySelector h)))"
  by (simp add: st_builder_unfold)


lemma st_builder_next:
  "next_selector (snd (st_builder p h)) = Suc (next_selector h)"
  by (simp add: st_builder_snd st_apply_part_next st_new_MySelector_fresh)

lemma st_builder_wf:
  "wf_store h \<Longrightarrow> wf_store (snd (st_builder p h))"
  by (simp add: st_builder_snd st_apply_part_wf st_new_MySelector_wf)

lemma st_builder_view:
  assumes "wf_store h"
  shows "view (snd (st_builder p h)) (next_selector h) = snd (builder p)"
proof -
  let ?h1 = "snd (st_new_MySelector h)"
  have "view (snd (st_apply_part p (next_selector h) ?h1)) (next_selector h) =
        snd (apply_part p (view ?h1 (next_selector h)))"
    by (rule st_apply_part_view(2) [OF st_new_MySelector_wf [OF assms]])
       (simp add: st_new_MySelector_fresh)
  then show ?thesis
    by (simp add: st_builder_snd st_new_MySelector_fresh builder_apply_part)
qed

lemma st_builder_frame:
  assumes "wf_store h" "b < next_selector h"
  shows "view (snd (st_builder p h)) b = view h b"
proof -
  let ?h1 = "snd (st_new_MySelector h)"
  have "view (snd (st_apply_part p (next_selector h) ?h1)) b = view ?h1 b"
    using assms(2)
    by (intro st_apply_part_frame [OF st_new_MySelector_wf [OF assms(1)]])
       (simp_all add: st_new_MySelector_fresh)
  also have "\<dots> = view h b"
    by (rule st_new_MySelector_frame [OF assms])
  finally show ?thesis by (simp add: st_builder_snd)
qed



text \<open>
  C5. \<open>stringify\<close> is pure and repeatable, on a simple and on a combined selector.
  In a store that holds the selectors of the node, a call returns the string that the
  fields of the node determine; it changes no field of any selector, so the node reads
  the same afterwards; any number of calls in a row return the same string each time;
  and a part-adding call made after it succeeds or fails, and leaves its receiver, exactly
  as if \<open>stringify\<close> had not been called.
\<close>

theorem stringify_pure:
  assumes "wf_store h" and "\<forall>a \<in> set (node_refs n). a < next_selector h"
    and "b < next_selector h"
  shows "fst (st_stringify_node n h) = stringify_node (node_view h n) \<and>
         view (snd (st_stringify_node n h)) b = view h b \<and>
         node_view (snd (st_stringify_node n h)) n = node_view h n \<and>
         wf_store (snd (st_stringify_node n h)) \<and>
         fst (st_stringify_times k n h) = replicate k (fst (st_stringify_node n h)) \<and>
         view (snd (st_stringify_times k n h)) b = view h b \<and>
         fst (st_apply_part p b (snd (st_stringify_node n h))) = fst (st_apply_part p b h) \<and>
         view (snd (st_apply_part p b (snd (st_stringify_node n h)))) b =
           view (snd (st_apply_part p b h)) b"
proof (intro conjI)
  note e = st_stringify_node_extends [of h n]
  show "fst (st_stringify_node n h) = stringify_node (node_view h n)"
    by (rule st_stringify_node_fst [OF assms(1,2)])
  show "view (snd (st_stringify_node n h)) b = view h b"
    by (rule extends_view [OF assms(1,3) e])
  show "node_view (snd (st_stringify_node n h)) n = node_view h n"
    by (rule node_view_extends [OF assms(1,2) e])
  show "wf_store (snd (st_stringify_node n h))"
    by (rule extends_wf [OF assms(1) e])
  show "fst (st_stringify_times k n h) = replicate k (fst (st_stringify_node n h))"
    by (rule st_stringify_times_fst [OF assms(1,2)])
  show "view (snd (st_stringify_times k n h)) b = view h b"
    by (rule extends_view [OF assms(1,3) st_stringify_times_extends])
  show "fst (st_apply_part p b (snd (st_stringify_node n h))) = fst (st_apply_part p b h)"
    by (rule st_apply_part_extends(1) [OF assms(1,3) e])
  show "view (snd (st_apply_part p b (snd (st_stringify_node n h)))) b =
      view (snd (st_apply_part p b h)) b"
    by (rule st_apply_part_extends(2) [OF assms(1,3) e])
qed

theorem stringify_pure_witness:
  "wf_store (snd (st_builder (Element ''table'') (snd (st_builder (Element ''div'') empty_store)))) \<and>
   0 < next_selector
         (snd (st_builder (Element ''table'') (snd (st_builder (Element ''div'') empty_store)))) \<and>
   fst (st_stringify_node (StCombined (StSimple 0) ''>'' (StSimple 1))
         (snd (st_builder (Element ''table'') (snd (st_builder (Element ''div'') empty_store))))) =
     ''div > table'' \<and>
   fst (st_stringify_times 2 (StCombined (StSimple 0) ''>'' (StSimple 1))
         (snd (st_builder (Element ''table'') (snd (st_builder (Element ''div'') empty_store))))) =
     [''div > table'', ''div > table''] \<and>
   fst (st_apply_part (Id ''main'') 0
         (snd (st_stringify_node (StCombined (StSimple 0) ''>'' (StSimple 1))
           (snd (st_builder (Element ''table'')
             (snd (st_builder (Element ''div'') empty_store))))))) = Inr ()"
proof -
  let ?hA = "snd (st_builder (Element ''div'') empty_store)"
  let ?hB = "snd (st_builder (Element ''table'') ?hA)"
  let ?n = "StCombined (StSimple 0) ''>'' (StSimple 1)"
  have wA: "wf_store ?hA" by (rule st_builder_wf [OF wf_empty_store])
  have wB: "wf_store ?hB" by (rule st_builder_wf [OF wA])
  have nA: "next_selector ?hA = 1" by (simp add: st_builder_next empty_store_def)
  have nB: "next_selector ?hB = 2" by (simp add: st_builder_next empty_store_def)
  have b: "0 < next_selector ?hB" by (simp add: nB)
  have r: "\<forall>a \<in> set (node_refs ?n). a < next_selector ?hB" by (simp add: nB)
  have vA: "view ?hA 0 = snd (builder (Element ''div''))"
    using st_builder_view [OF wf_empty_store, of "Element ''div''"] by (simp add: empty_store_def)
  have v0: "view ?hB 0 = snd (builder (Element ''div''))"
    using st_builder_frame [OF wA, of 0 "Element ''table''"] by (simp add: nA vA)
  have v1: "view ?hB 1 = snd (builder (Element ''table''))"
    using st_builder_view [OF wA, of "Element ''table''"] by (simp add: nA)
  have s: "stringify_node (node_view ?hB ?n) = ''div > table''"
    unfolding node_view.simps v0 v1
    by (simp add: part_defs new_MySelector_def stringify_def transform_def)
  have c: "fst (st_apply_part (Id ''main'') 0 ?hB) = Inr ()"
    unfolding st_apply_part_view(1) [OF wB b] v0
    by (simp add: part_defs new_MySelector_def)
  note t = stringify_pure [OF wB r b, of 2 "Id ''main''"]
  from t have 1: "fst (st_stringify_node ?n ?hB) = ''div > table''"
    unfolding s by (elim conjE)
  from t have "fst (st_stringify_times 2 ?n ?hB) = replicate 2 (fst (st_stringify_node ?n ?hB))"
    by (elim conjE)
  then have 2: "fst (st_stringify_times 2 ?n ?hB) = [''div > table'', ''div > table'']"
    unfolding 1 by (simp add: numeral_2_eq_2)
  from t have 3: "fst (st_apply_part (Id ''main'') 0 (snd (st_stringify_node ?n ?hB))) = Inr ()"
    unfolding c by (elim conjE)
  from wB b 1 2 3 show ?thesis by (intro conjI)
qed



end
